theory Spec2Isabelle
  imports Main "HOL-Library.AList"
begin

section \<open>Plain data, exceptions and the file system\<close>

text \<open>
  The plain structures that the JSON backend serialises. Python's \<open>None\<close> is the value
  \<open>JNull\<close>: \<open>json.loads\<close> of the text \<open>null\<close> returns \<open>None\<close>, and \<open>data is None\<close>
  is the test \<open>data = JNull\<close>. A mapping keeps its keys in insertion order.
\<close>

datatype json =
    JNull
  | JBool bool
  | JNum int
  | JStr string
  | JList "json list"
  | JDict "(string \<times> json) list"

datatype errno = ENOENT | EACCES

text \<open>
  The exceptions that the modelled code raises or lets through. \<open>JSONDecodeError\<close> is
  what \<open>json.loads\<close> raises on a text that is not JSON (a \<open>ValueError\<close>, not an
  \<open>IOError\<close>).
\<close>

datatype exc =
    ValueError
  | TypeError
  | KeyError
  | JSONDecodeError
  | IOError errno

text \<open>
  A file has its bytes, its modification time and its permission bits; the file system
  maps a path to the file stored there. Only what \<open>open\<close>, \<open>write\<close>, \<open>os.replace\<close>
  and the size and modification time of a file depend on is kept.
\<close>

record regfile =
  content :: string
  mtime :: nat
  readable :: bool
  writable :: bool

type_synonym filesystem = "string \<rightharpoonup> regfile"

text \<open>
  \<open>with open(fn, 'rb') as file: blob = file.read()\<close>: a missing file raises
  \<open>IOError\<close> with \<open>errno.ENOENT\<close>, a file without read permission raises it with
  \<open>errno.EACCES\<close>.
\<close>

definition open_rb_read :: "filesystem \<Rightarrow> string \<Rightarrow> exc + string" where
  "open_rb_read fs fn =
     (case fs fn of
        None \<Rightarrow> Inl (IOError ENOENT)
      | Some f \<Rightarrow> if readable f then Inr (content f) else Inl (IOError EACCES))"

text \<open>
  \<open>with open(fn, 'wb') as file: file.write(blob)\<close>. Opening fails on an existing file
  without write permission. Otherwise the file is created or truncated, and the bytes
  arrive in it in order: the result lists every state of the file system that another
  process may observe, from the empty file to the complete one. \<open>now\<close> is the clock of
  the machine at the write.
\<close>

definition written :: "regfile option \<Rightarrow> string \<Rightarrow> nat \<Rightarrow> regfile" where
  "written old s now =
     (case old of
        None \<Rightarrow> \<lparr>content = s, mtime = now, readable = True, writable = True\<rparr>
      | Some f \<Rightarrow> f\<lparr>content := s, mtime := now\<rparr>)"

definition open_wb_write :: "filesystem \<Rightarrow> string \<Rightarrow> string \<Rightarrow> nat \<Rightarrow> exc + filesystem list" where
  "open_wb_write fs fn blob now =
     (if (case fs fn of None \<Rightarrow> False | Some f \<Rightarrow> \<not> writable f) then Inl (IOError EACCES)
      else Inr (map (\<lambda>k. fs(fn \<mapsto> written (fs fn) (take k blob) now)) [0..<Suc (length blob)]))"

text \<open>
  \<open>os.replace(src, dst)\<close>: one step of the file system, after which \<open>dst\<close> is the
  file that was at \<open>src\<close> and \<open>src\<close> is gone.
\<close>

definition os_replace :: "filesystem \<Rightarrow> string \<Rightarrow> string \<Rightarrow> exc + filesystem list" where
  "os_replace fs src dst =
     (case fs src of
        None \<Rightarrow> Inl (IOError ENOENT)
      | Some f \<Rightarrow> Inr [(fs(src := None))(dst \<mapsto> f)])"

subsection \<open>\<open>os.path.split\<close> and \<open>os.path.join\<close> (POSIX)\<close>

definition sep :: char where
  "sep = CHR ''/''"

definition rstrip_sep :: "string \<Rightarrow> string" where
  "rstrip_sep s = rev (dropWhile (\<lambda>c. c = sep) (rev s))"

text \<open>
  \<open>i = p.rfind('/') + 1; head, tail = p[:i], p[i:]\<close>, and the head loses its trailing
  slashes unless it consists of slashes only.
\<close>

definition path_split :: "string \<Rightarrow> string \<times> string" where
  "path_split p =
     (let tail = rev (takeWhile (\<lambda>c. c \<noteq> sep) (rev p));
          head = rev (dropWhile (\<lambda>c. c \<noteq> sep) (rev p))
      in (if head \<noteq> [] \<and> head \<noteq> replicate (length head) sep then rstrip_sep head else head,
          tail))"

definition path_join :: "string \<Rightarrow> string \<Rightarrow> string" where
  "path_join a b =
     (if b \<noteq> [] \<and> hd b = sep then b
      else if a = [] \<or> last a = sep then a @ b
      else a @ [sep] @ b)"

section \<open>The JSON backend: \<open>signac/core/jsoncollection.py\<close>\<close>

text \<open>
  The functions of the standard library that the backend calls are parameters of the
  model: \<open>json.dumps\<close>, \<open>json.loads\<close> (\<open>None\<close> when it raises), \<open>os.path.realpath\<close>,
  and the metadata probe \<open>_get_filemetadata\<close> of \<open>buffered_collection\<close>, which returns
  a comparable value or Python's \<open>None\<close> (here \<open>Inr None\<close>), or raises.
\<close>

type_synonym metadata = "nat \<times> nat"

record env =
  json_dumps :: "json \<Rightarrow> string"
  json_loads :: "string \<Rightarrow> json option"
  realpath :: "string \<Rightarrow> string"
  get_filemetadata :: "filesystem \<Rightarrow> string \<Rightarrow> exc + metadata option"

record backend_kwargs =
  kw_filename :: "string option"
  kw_write_concern :: bool

text \<open>
  A node: \<open>self._filename\<close>, \<open>self._parent\<close> (a reference to the parent node, by its
  address), \<open>self._data\<close> and \<open>self._backend_kwargs\<close>.
\<close>

record node =
  node_filename :: "string option"
  node_parent :: "nat option"
  node_data :: json
  node_backend_kwargs :: backend_kwargs

text \<open>
  Modelled from the spec: \<open>to_base\<close> and \<open>from_base\<close> of \<open>synced_collection\<close>, which is
  not among the sources. \<open>to_base()\<close> produces a plain copy of the current snapshot;
  \<open>from_base(data, **binding)\<close> constructs a node pre-populated with \<open>data\<close> without
  touching the backend.
\<close>

definition to_base :: "node \<Rightarrow> json" where
  "to_base self = node_data self"

definition from_base :: "json \<Rightarrow> backend_kwargs \<Rightarrow> node" where
  "from_base data kw =
     \<lparr>node_filename = kw_filename kw, node_parent = None, node_data = data,
      node_backend_kwargs = kw\<rparr>"

text \<open>
  \<open>JSONCollection._load\<close>. The handler catches \<open>IOError\<close> and returns \<open>None\<close> when the
  errno is \<open>ENOENT\<close>; for any other errno the handler ends without a \<open>return\<close> or a
  \<open>raise\<close>, so the function returns \<open>None\<close> there too. An exception that is not an
  \<open>IOError\<close> propagates. \<open>open(None, 'rb')\<close> raises \<open>TypeError\<close>.
\<close>

definition JSONCollection_load :: "env \<Rightarrow> node \<Rightarrow> filesystem \<Rightarrow> exc + json" where
  "JSONCollection_load E self fs =
     (case node_filename self of
        None \<Rightarrow> Inl TypeError
      | Some fn \<Rightarrow>
          (case open_rb_read fs fn of
             Inr blob \<Rightarrow>
               (case json_loads E blob of None \<Rightarrow> Inl JSONDecodeError | Some d \<Rightarrow> Inr d)
           | Inl (IOError e) \<Rightarrow> (if e = ENOENT then Inr JNull else Inr JNull)
           | Inl x \<Rightarrow> Inl x))"

text \<open>
  \<open>JSONCollection._sync\<close>, as the sequence of file-system states it goes through and
  the exception it ends with, if any. \<open>uid\<close> is the text of \<open>uuid.uuid4()\<close>.
\<close>

definition fn_tmp :: "string \<Rightarrow> string \<Rightarrow> string" where
  "fn_tmp target uid =
     (case path_split target of
        (dirname, filename) \<Rightarrow> path_join dirname (''._'' @ uid @ ''_'' @ filename))"

definition JSONCollection_sync_trace ::
  "env \<Rightarrow> node \<Rightarrow> json \<Rightarrow> filesystem \<Rightarrow> string \<Rightarrow> nat \<Rightarrow> filesystem list \<times> exc option" where
  "JSONCollection_sync_trace E self data fs uid now =
     (let data = (if data = JNull then to_base self else data);
          blob = json_dumps E data
      in case node_filename self of
           None \<Rightarrow> ([], Some TypeError)
         | Some target \<Rightarrow>
             if kw_write_concern (node_backend_kwargs self) then
               (case open_wb_write fs (fn_tmp target uid) blob now of
                  Inl e \<Rightarrow> ([], Some e)
                | Inr tr \<Rightarrow>
                    (case os_replace (last tr) (fn_tmp target uid) target of
                       Inl e \<Rightarrow> (tr, Some e)
                     | Inr tr' \<Rightarrow> (tr @ tr', None)))
             else
               (case open_wb_write fs target blob now of
                  Inl e \<Rightarrow> ([], Some e)
                | Inr tr \<Rightarrow> (tr, None)))"

text \<open>\<open>_sync\<close> as a state transformer: the last state of the trace, and the exception.\<close>

definition JSONCollection_sync ::
  "env \<Rightarrow> node \<Rightarrow> json \<Rightarrow> filesystem \<Rightarrow> string \<Rightarrow> nat \<Rightarrow> filesystem \<times> exc option" where
  "JSONCollection_sync E self data fs uid now =
     (case JSONCollection_sync_trace E self data fs uid now of
        (tr, e) \<Rightarrow> (if tr = [] then fs else last tr, e))"

type_synonym cache = "string \<rightharpoonup> string"

text \<open>
  \<open>JSONCollection._sync_from_buffer(id, backend_kwargs, cache, metadata=None)\<close>. The
  cache maps a file name to the JSON text of the buffered snapshot. The result is the
  file system afterwards and either the exception raised or the boolean returned. The
  probe is called only when \<open>metadata is not None\<close>.
\<close>

definition JSONCollection_sync_from_buffer ::
  "env \<Rightarrow> string \<Rightarrow> backend_kwargs \<Rightarrow> cache \<Rightarrow> metadata option \<Rightarrow> filesystem \<Rightarrow> string \<Rightarrow> nat
     \<Rightarrow> filesystem \<times> (exc + bool)" where
  "JSONCollection_sync_from_buffer E ident kw cache metadata fs uid now =
     (let write =
        (case cache ident of
           None \<Rightarrow> (fs, Inl KeyError)
         | Some s \<Rightarrow>
             (case json_loads E s of
                None \<Rightarrow> (fs, Inl JSONDecodeError)
              | Some data \<Rightarrow>
                  (case JSONCollection_sync E (from_base data kw) JNull fs uid now of
                     (fs', Some e) \<Rightarrow> (fs', Inl e)
                   | (fs', None) \<Rightarrow> (fs', Inr True))))
      in case metadata of
           None \<Rightarrow> write
         | Some m \<Rightarrow>
             (case get_filemetadata E fs ident of
                Inl e \<Rightarrow> (fs, Inl e)
              | Inr probe \<Rightarrow> if Some m \<noteq> probe then (fs, Inr False) else write))"

text \<open>
  Modelled from the spec: the base initialiser \<open>super().__init__(**kwargs)\<close> of
  \<open>synced_collection\<close>, which is not among the sources. It binds the parent
  back-reference \<open>self._parent\<close> and the in-memory snapshot of the node.
\<close>

definition SyncedCollection_init :: "node \<Rightarrow> nat option \<Rightarrow> json \<Rightarrow> node" where
  "SyncedCollection_init self parent data = self\<lparr>node_parent := parent, node_data := data\<rparr>"

text \<open>
  \<open>JSONCollection.__init__(filename=None, data=None, write_concern=False, **kwargs)\<close>,
  with \<open>parent\<close> the keyword that the base initialiser receives. The inherited method
  \<open>sync\<close>, which is not among the sources either, is a parameter: a transformer of
  the state \<open>'s\<close> of the backend and the buffer that may raise. The assignments made
  before the check stay when \<open>ValueError\<close> is raised, but the node is then not
  returned.
\<close>

definition JSONCollection_init ::
  "env \<Rightarrow> (node \<Rightarrow> 's \<Rightarrow> 's \<times> exc option) \<Rightarrow> string option \<Rightarrow> json \<Rightarrow> bool \<Rightarrow> nat option \<Rightarrow> 's
     \<Rightarrow> 's \<times> (exc + node)" where
  "JSONCollection_init E sync filename data write_concern parent st =
     (let self = \<lparr>node_filename = (case filename of None \<Rightarrow> None | Some f \<Rightarrow> Some (realpath E f)),
                  node_parent = None, node_data = JNull,
                  node_backend_kwargs = \<lparr>kw_filename = None, kw_write_concern = False\<rparr>\<rparr>;
          self = SyncedCollection_init self parent data
      in if (filename = None) = (node_parent self = None) then (st, Inl ValueError)
         else
           let self = self\<lparr>node_backend_kwargs :=
                       \<lparr>kw_filename = node_filename self, kw_write_concern = write_concern\<rparr>\<rparr>
           in if data \<noteq> JNull then
                (case sync self st of
                   (st', Some e) \<Rightarrow> (st', Inl e)
                 | (st', None) \<Rightarrow> (st', Inr self))
              else (st, Inr self))"

text \<open>
  Modelled from the spec: \<open>sync\<close> on a root node outside buffered mode pushes the full
  snapshot through the backend, that is, calls \<open>_sync()\<close>.
\<close>

definition sync_unbuffered :: "env \<Rightarrow> string \<Rightarrow> nat \<Rightarrow> node \<Rightarrow> filesystem \<Rightarrow> filesystem \<times> exc option" where
  "sync_unbuffered E uid now self fs = JSONCollection_sync E self JNull fs uid now"

text \<open>
  Modelled from the spec: the metadata probe of \<open>buffered_collection\<close>, which is not
  among the sources. \<open>metadata(resource)\<close> returns a comparable snapshot, the size and
  the modification time; for a resource that does not exist it returns \<open>None\<close>.
\<close>

definition stat_metadata :: "filesystem \<Rightarrow> string \<Rightarrow> exc + metadata option" where
  "stat_metadata fs fn =
     (case fs fn of
        None \<Rightarrow> Inr None
      | Some f \<Rightarrow> Inr (Some (length (content f), mtime f)))"

text \<open>
  Modelled from the spec: the write buffer and \<open>flush_one\<close> of \<open>buffered_collection\<close>.
  A buffer entry is the resource identity, the serialised snapshot (in the cache) and
  the metadata observed at buffering time; it exists between a buffered write and its
  flush. \<open>flush_one\<close> succeeds trivially when nothing is pending; otherwise it takes the
  entry out of the buffer and hands it to the backend's \<open>_sync_from_buffer\<close>.
\<close>

record write_buffer =
  pending :: "string \<rightharpoonup> backend_kwargs \<times> metadata option"
  wb_cache :: cache

definition discard :: "string \<Rightarrow> write_buffer \<Rightarrow> write_buffer" where
  "discard ident buf =
     buf\<lparr>pending := (pending buf)(ident := None), wb_cache := (wb_cache buf)(ident := None)\<rparr>"

definition flush_one ::
  "env \<Rightarrow> string \<Rightarrow> write_buffer \<Rightarrow> filesystem \<Rightarrow> string \<Rightarrow> nat
     \<Rightarrow> write_buffer \<times> filesystem \<times> (exc + bool)" where
  "flush_one E ident buf fs uid now =
     (case pending buf ident of
        None \<Rightarrow> (buf, fs, Inr True)
      | Some (kw, metadata) \<Rightarrow>
          (case JSONCollection_sync_from_buffer E ident kw (wb_cache buf) metadata fs uid now of
             (fs', r) \<Rightarrow> (discard ident buf, fs', r)))"

text \<open>
  A small environment on which the model is evaluated: a codec that knows the texts of
  \<open>None\<close> and of the mappings \<open>{}\<close> and \<open>{"a": 1}\<close>, paths that are already real, and
  the probe above.
\<close>

definition small_dumps :: "json \<Rightarrow> string" where
  "small_dumps d =
     (if d = JDict [] then ''{}''
      else if d = JDict [(''a'', JNum 1)] then ''{\"a\": 1}''
      else ''null'')"

definition small_loads :: "string \<Rightarrow> json option" where
  "small_loads s =
     (if s = ''{}'' then Some (JDict [])
      else if s = ''{\"a\": 1}'' then Some (JDict [(''a'', JNum 1)])
      else if s = ''null'' then Some JNull
      else None)"

definition small_env :: env where
  "small_env =
     \<lparr>json_dumps = small_dumps, json_loads = small_loads, realpath = (\<lambda>p. p),
      get_filemetadata = stat_metadata\<rparr>"

section \<open>Nested nodes and the document store\<close>

subsection \<open>Paths into a plain structure\<close>

text \<open>
  Modelled from the spec: the resolution of a field path, shared by \<open>find\<close> and
  \<open>index\<close>. A dotted path \<open>a.b\<close> is cut at its dots, and a path is resolved by
  walking nested mappings; a key that is missing, or a step into a value that is not a
  mapping, finds nothing.
\<close>

fun split_dots :: "string \<Rightarrow> string list" where
  "split_dots [] = [[]]"
| "split_dots (c # cs) =
     (if c = CHR ''.'' then [] # split_dots cs
      else (case split_dots cs of [] \<Rightarrow> [[c]] | x # xs \<Rightarrow> (c # x) # xs))"

fun lookup_path :: "string list \<Rightarrow> json \<Rightarrow> json option" where
  "lookup_path [] v = Some v"
| "lookup_path (k # ks) (JDict kvs) =
     (case map_of kvs k of None \<Rightarrow> None | Some v \<Rightarrow> lookup_path ks v)"
| "lookup_path (k # ks) v = None"

definition resolve :: "string \<Rightarrow> json \<Rightarrow> json option" where
  "resolve field v = lookup_path (split_dots field) v"

subsection \<open>The per-root cache of nested nodes\<close>

text \<open>
  Modelled from the spec: the nested-access materialisation of the Synced Node
  (\<open>jsondict\<close> and \<open>synced_collection\<close> are not among the sources; \<open>test_jsondict\<close>
  is). A path is a chain of keys and indexes from the owning root: a key steps into a
  mapping, an index into a sequence, where a negative index counts from the end as in
  Python. A key that is absent and an index that is out of range fail with
  \<open>MissingKey\<close>, as does a step into a scalar; a key where an index is required, or
  an index where a key is required, fails with \<open>InvalidKeyType\<close>.
\<close>

datatype store_error =
    InvalidKeyType
  | InvalidAssignment
  | MissingKey
  | DuplicateIdentifier
  | DisallowedOperation
  | NotReady

datatype step = AtKey string | AtIndex int

fun lookup_steps :: "step list \<Rightarrow> json \<Rightarrow> store_error + json" where
  "lookup_steps [] v = Inr v"
| "lookup_steps (AtKey k # ps) (JDict kvs) =
     (case map_of kvs k of None \<Rightarrow> Inl MissingKey | Some v \<Rightarrow> lookup_steps ps v)"
| "lookup_steps (AtIndex i # ps) (JList vs) =
     (let n = int (length vs); j = (if i < 0 then n + i else i)
      in if 0 \<le> j \<and> j < n then lookup_steps ps (vs ! nat j) else Inl MissingKey)"
| "lookup_steps (AtKey k # ps) (JList vs) = Inl InvalidKeyType"
| "lookup_steps (AtIndex i # ps) (JDict kvs) = Inl InvalidKeyType"
| "lookup_steps (p # ps) v = Inl MissingKey"

text \<open>
  Modelled from the spec: the per-root identity cache. A node instance is identified by
  its address, as Python's \<open>id\<close> does. A root (a mapping or a sequence) holds its
  snapshot, the cache from paths to the instances of its nested nodes and the next free
  address. Reading a path whose value is a container returns the node bound to that
  path, retrieved from the cache or created and inserted into it; reading a scalar
  returns the scalar. A mutation changes the snapshot only. A reload replaces the
  snapshot and invalidates the whole cache.
\<close>

record root =
  snapshot :: json
  children :: "step list \<rightharpoonup> nat"
  next_address :: nat

datatype item = Node nat | Plain json

fun is_container :: "json \<Rightarrow> bool" where
  "is_container (JDict kvs) = True"
| "is_container (JList vs) = True"
| "is_container v = False"

definition read_path :: "root \<Rightarrow> step list \<Rightarrow> root \<times> (store_error + item)" where
  "read_path r p =
     (case lookup_steps p (snapshot r) of
        Inl e \<Rightarrow> (r, Inl e)
      | Inr v \<Rightarrow>
          if is_container v then
            (case children r p of
               Some a \<Rightarrow> (r, Inr (Node a))
             | None \<Rightarrow>
                 (r\<lparr>children := (children r)(p \<mapsto> next_address r),
                    next_address := Suc (next_address r)\<rparr>,
                  Inr (Node (next_address r))))
          else (r, Inr (Plain v)))"

definition mutate :: "root \<Rightarrow> json \<Rightarrow> root" where
  "mutate r v = r\<lparr>snapshot := v\<rparr>"

definition reload :: "root \<Rightarrow> json \<Rightarrow> root" where
  "reload r v = r\<lparr>snapshot := v, children := Map.empty\<rparr>"

text \<open>
  Modelled from the spec: what a program does to a root between two reads, short of
  reloading it.
\<close>

datatype access = Read "step list" | Mutate json

fun run :: "root \<Rightarrow> access list \<Rightarrow> root" where
  "run r [] = r"
| "run r (Read p # as) = run (fst (read_path r p)) as"
| "run r (Mutate v # as) = run (mutate r v) as"

subsection \<open>The document store\<close>

text \<open>
  Modelled from the spec: the Document Store (\<open>signac.Collection\<close> is not among the
  sources; \<open>test_collection\<close> is). A document is a mapping; its primary key is the
  string under \<open>_id\<close>. The store holds its documents by id in iteration order, the
  secondary indexes built so far, the mode of its file handle if it is file-backed, the
  record set persisted in the file, and whether the record set in memory has a mutation
  that is not persisted.
\<close>

type_synonym doc = "(string \<times> json) list"

datatype mode = ReadMode | WriteMode | AppendMode

type_synonym index = "json \<rightharpoonup> string set"

record collection =
  docs :: "(string \<times> doc) list"
  indexes :: "string \<rightharpoonup> index"
  handle :: "mode option"
  persisted :: "doc list"
  dirty :: bool

definition ids :: "collection \<Rightarrow> string list" where
  "ids c = map fst (docs c)"

text \<open>
  Modelled from the spec: a fresh unique string id, here a string longer than every id
  present.
\<close>

definition fresh_id :: "string list \<Rightarrow> string" where
  "fresh_id xs = replicate (Suc (fold max (map length xs) 0)) CHR ''0''"

text \<open>
  Modelled from the spec: the matcher. A filter maps field paths to expected values; a key is a dotted path, and
  an expected value that is itself a mapping is a nested filter on the value found.
\<close>

fun matches :: "json \<Rightarrow> (string \<times> json) list \<Rightarrow> bool"
  and match_value :: "json \<Rightarrow> json \<Rightarrow> bool" where
  "matches x [] = True"
| "matches x ((k, v) # flt) =
     ((case resolve k x of None \<Rightarrow> False | Some y \<Rightarrow> match_value y v) \<and> matches x flt)"
| "match_value y (JDict sub) = matches y sub"
| "match_value y v = (y = v)"

text \<open>
  Modelled from the spec: \<open>find(filter, limit)\<close> returns the matching documents in
  iteration order, truncated to the limit. On a handle opened in read mode a query
  after an unpersisted mutation fails with \<open>NotReady\<close>.
\<close>

definition find_docs :: "collection \<Rightarrow> (string \<times> json) list \<Rightarrow> nat option \<Rightarrow> store_error + doc list" where
  "find_docs c flt limit =
     (if handle c = Some ReadMode \<and> dirty c then Inl NotReady
      else
        let found = map snd (filter (\<lambda>(i, d). matches (JDict d) flt) (docs c))
        in Inr (case limit of None \<Rightarrow> found | Some n \<Rightarrow> take n found))"

definition find_one :: "collection \<Rightarrow> (string \<times> json) list \<Rightarrow> store_error + doc option" where
  "find_one c flt =
     (case find_docs c flt (Some 1) of
        Inl e \<Rightarrow> Inl e
      | Inr [] \<Rightarrow> Inr None
      | Inr (d # ds) \<Rightarrow> Inr (Some d))"

text \<open>
  Modelled from the spec: \<open>insert_one(doc)\<close>. A document without an id gets a fresh
  one; a document whose id is present already fails with \<open>DuplicateIdentifier\<close>; an
  id that is not a string fails with \<open>InvalidKeyType\<close>. Every mutation drops the
  indexes built so far and leaves the file as it is.
\<close>

definition put :: "collection \<Rightarrow> string \<Rightarrow> doc \<Rightarrow> collection" where
  "put c i d =
     c\<lparr>docs := AList.update i (AList.update ''_id'' (JStr i) d) (docs c),
       indexes := Map.empty, dirty := True\<rparr>"

definition insert_one :: "collection \<Rightarrow> doc \<Rightarrow> collection \<times> (store_error + string)" where
  "insert_one c d =
     (case map_of d ''_id'' of
        None \<Rightarrow> (put c (fresh_id (ids c)) d, Inr (fresh_id (ids c)))
      | Some (JStr i) \<Rightarrow>
          if i \<in> set (ids c) then (c, Inl DuplicateIdentifier) else (put c i d, Inr i)
      | Some v \<Rightarrow> (c, Inl InvalidKeyType))"

text \<open>
  Modelled from the spec: \<open>delete_one(filter)\<close> removes the first matching document; removing none is not an
  error. \<open>replace_one(filter, replacement)\<close> replaces the first matching document,
  which keeps its id unless the replacement brings its own.
\<close>

definition first_match :: "collection \<Rightarrow> (string \<times> json) list \<Rightarrow> (string \<times> doc) option" where
  "first_match c flt = List.find (\<lambda>(i, d). matches (JDict d) flt) (docs c)"

definition remove :: "collection \<Rightarrow> string \<Rightarrow> collection" where
  "remove c i = c\<lparr>docs := AList.delete i (docs c), indexes := Map.empty, dirty := True\<rparr>"

definition delete_one :: "collection \<Rightarrow> (string \<times> json) list \<Rightarrow> collection" where
  "delete_one c flt =
     (case first_match c flt of
        None \<Rightarrow> c
      | Some (i, d) \<Rightarrow> remove c i)"

definition replace_one ::
  "collection \<Rightarrow> (string \<times> json) list \<Rightarrow> doc \<Rightarrow> collection \<times> (store_error + string option)" where
  "replace_one c flt d =
     (case first_match c flt of
        None \<Rightarrow> (c, Inr None)
      | Some (i, old) \<Rightarrow>
          (case map_of d ''_id'' of
             None \<Rightarrow> (put c i d, Inr (Some i))
           | Some (JStr j) \<Rightarrow>
               if j = i then (put c i d, Inr (Some i))
               else if j \<in> set (ids c) then (c, Inl DuplicateIdentifier)
               else (put (remove c i) j d, Inr (Some j))
           | Some v \<Rightarrow> (c, Inl InvalidKeyType)))"

text \<open>
  Modelled from the spec: \<open>index(field, build)\<close>. An index that exists is returned;
  an absent one fails with \<open>MissingKey\<close> unless \<open>build\<close> is set, and is then
  constructed by scanning all documents and grouping the ids by the value found at the
  field.
\<close>

definition group_id :: "string \<Rightarrow> string \<times> doc \<Rightarrow> index \<Rightarrow> index" where
  "group_id field = (\<lambda>(i, d) ix.
     (case resolve field (JDict d) of
        None \<Rightarrow> ix
      | Some v \<Rightarrow> ix(v \<mapsto> insert i (case ix v of None \<Rightarrow> {} | Some s \<Rightarrow> s))))"

definition build_index :: "(string \<times> doc) list \<Rightarrow> string \<Rightarrow> index" where
  "build_index ds field = fold (group_id field) ds Map.empty"

definition index_field :: "collection \<Rightarrow> string \<Rightarrow> bool \<Rightarrow> collection \<times> (store_error + index)" where
  "index_field c field build =
     (case indexes c field of
        Some ix \<Rightarrow> (c, Inr ix)
      | None \<Rightarrow>
          if build then
            (c\<lparr>indexes := (indexes c)(field \<mapsto> build_index (docs c) field)\<rparr>,
             Inr (build_index (docs c) field))
          else (c, Inl MissingKey))"

text \<open>
  Modelled from the spec: the file-backed mode. \<open>open\<close> in write mode truncates; in
  read and append mode it loads the records of the file. \<open>flush\<close> rewrites the full
  record set when there is something to persist, which a handle opened in read mode
  does not permit; \<open>close\<close> flushes and releases the handle.
\<close>

definition load_records :: "doc list \<Rightarrow> (string \<times> doc) list" where
  "load_records recs =
     fold (\<lambda>d ds. (case map_of d ''_id'' of Some (JStr i) \<Rightarrow> AList.update i d ds | _ \<Rightarrow> ds))
       recs []"

definition open_collection :: "doc list \<Rightarrow> mode \<Rightarrow> collection" where
  "open_collection recs m =
     (case m of
        WriteMode \<Rightarrow>
          \<lparr>docs = [], indexes = Map.empty, handle = Some m, persisted = [], dirty = False\<rparr>
      | _ \<Rightarrow>
          \<lparr>docs = load_records recs, indexes = Map.empty, handle = Some m, persisted = recs,
           dirty = False\<rparr>)"

definition flush :: "collection \<Rightarrow> collection \<times> (store_error + unit)" where
  "flush c =
     (if handle c \<noteq> None \<and> dirty c then
        (if handle c = Some ReadMode then (c, Inl DisallowedOperation)
         else (c\<lparr>persisted := map snd (docs c), dirty := False\<rparr>, Inr ()))
      else (c, Inr ()))"

definition close :: "collection \<Rightarrow> collection \<times> (store_error + unit)" where
  "close c =
     (case flush c of
        (c', Inl e) \<Rightarrow> (c', Inl e)
      | (c', Inr u) \<Rightarrow> (c'\<lparr>handle := None\<rparr>, Inr ()))"

text \<open>The ids that an index holds for a value.\<close>

definition ids_at :: "index \<Rightarrow> json \<Rightarrow> string set" where
  "ids_at ix v = (case ix v of None \<Rightarrow> {} | Some s \<Rightarrow> s)"

text \<open>The invariant of the indexes: each one a store holds was built from its present
  documents.\<close>

definition indexes_valid :: "collection \<Rightarrow> bool" where
  "indexes_valid c =
     (\<forall>field ix. indexes c field = Some ix \<longrightarrow> ix = build_index (docs c) field)"

text \<open>
  Modelled from the spec: the stores a program can reach. A store starts new and empty
  or freshly opened on a file, and a program applies the operations to it one after
  another.
\<close>

definition empty_collection :: collection where
  "empty_collection =
     \<lparr>docs = [], indexes = Map.empty, handle = None, persisted = [], dirty = False\<rparr>"

datatype start = New | Open "doc list" mode

datatype store_op =
    Insert doc
  | Delete "(string \<times> json) list"
  | Replace "(string \<times> json) list" doc
  | Index string bool
  | Flush
  | Close

fun initial :: "start \<Rightarrow> collection" where
  "initial New = empty_collection"
| "initial (Open recs m) = open_collection recs m"

fun apply_op :: "store_op \<Rightarrow> collection \<Rightarrow> collection" where
  "apply_op (Insert d) c = fst (insert_one c d)"
| "apply_op (Delete flt) c = delete_one c flt"
| "apply_op (Replace flt d) c = fst (replace_one c flt d)"
| "apply_op (Index field build) c = fst (index_field c field build)"
| "apply_op Flush c = fst (flush c)"
| "apply_op Close c = fst (close c)"

definition perform :: "start \<Rightarrow> store_op list \<Rightarrow> collection" where
  "perform s ops = fold apply_op ops (initial s)"

subsection \<open>Concrete inputs\<close>

definition doc_path :: string where
  "doc_path = ''/data/doc.json''"

definition doc_kwargs :: backend_kwargs where
  "doc_kwargs = \<lparr>kw_filename = Some doc_path, kw_write_concern = False\<rparr>"

definition other_writer_fs :: filesystem where
  "other_writer_fs =
     [doc_path \<mapsto> \<lparr>content = ''{\"a\": 1}'', mtime = 9, readable = True, writable = True\<rparr>]"

definition staged_buffer :: "metadata option \<Rightarrow> write_buffer" where
  "staged_buffer m = \<lparr>pending = [doc_path \<mapsto> (doc_kwargs, m)], wb_cache = [doc_path \<mapsto> ''{}'']\<rparr>"

definition unreadable_fs :: filesystem where
  "unreadable_fs =
     [doc_path \<mapsto> \<lparr>content = ''{\"a\": 1}'', mtime = 9, readable = False, writable = True\<rparr>]"

definition wc_node :: node where
  "wc_node = from_base (JDict []) \<lparr>kw_filename = Some doc_path, kw_write_concern = True\<rparr>"

definition jsd :: root where
  "jsd =
     \<lparr>snapshot = JDict [(''a'', JList [JDict []])], children = Map.empty, next_address = 1\<rparr>"

definition jsd_read :: root where
  "jsd_read = jsd\<lparr>children := [[AtKey ''a'', AtIndex 0] \<mapsto> 1], next_address := 2\<rparr>"

definition jsd_accesses :: "access list" where
  "jsd_accesses =
     [Mutate (JDict [(''a'', JList [JDict [(''k'', JStr ''d'')]])]),
      Read [AtKey ''a'', AtIndex 0, AtKey ''k''],
      Read [AtKey ''a'']]"

definition jsl :: root where
  "jsl = \<lparr>snapshot = JList [JNum 7, JList []], children = Map.empty, next_address = 1\<rparr>"

definition jsl_read :: root where
  "jsl_read = jsl\<lparr>children := [[AtIndex (- 1)] \<mapsto> 1], next_address := 2\<rparr>"

definition two_docs :: collection where
  "two_docs = perform New [Insert [(''a'', JNum 0)], Insert [(''a'', JNum 1)]]"

definition three_docs :: collection where
  "three_docs =
     perform New [Insert [(''a'', JNum 0)], Insert [(''a'', JNum 1)], Insert [(''a'', JNum 0)]]"

definition three_docs_indexed :: collection where
  "three_docs_indexed =
     perform New [Insert [(''a'', JNum 0)], Insert [(''a'', JNum 1)], Insert [(''a'', JNum 0)],
                  Index ''a'' True]"

definition nested_docs :: collection where
  "nested_docs =
     perform New [Insert [(''a'', JDict [(''b'', JNum 0)])], Insert [(''a'', JDict [(''b'', JNum 1)])]]"

definition three_records :: "doc list" where
  "three_records = map (\<lambda>s. [(''_id'', JStr s)]) [''0'', ''1'', ''2'']"

definition read_only :: collection where
  "read_only = open_collection three_records ReadMode"
section \<open>Properties of the JSON backend\<close>

subsection \<open>Auxiliary facts\<close>

lemma sync_ignores_probe:
  "JSONCollection_sync (E\<lparr>get_filemetadata := p\<rparr>) self d fs uid now = JSONCollection_sync E self d fs uid now"
  by (simp add: JSONCollection_sync_def JSONCollection_sync_trace_def)

lemma last_open_wb_write:
  "open_wb_write fs fn blob now = Inr tr \<Longrightarrow>
     tr \<noteq> [] \<and> last tr = fs(fn \<mapsto> written (fs fn) blob now)"
  by (auto simp: open_wb_write_def last_map split: if_splits simp del: upt_Suc)

text \<open>After a \<open>_sync\<close> that raised nothing, the target holds the serialised data.\<close>

lemma sync_success_content:
  assumes "JSONCollection_sync E self d fs uid now = (fs', None)"
      and "node_filename self = Some target"
  shows "map_option content (fs' target) =
           Some (json_dumps E (if d = JNull then to_base self else d))"
  using assms
  by (auto simp: JSONCollection_sync_def JSONCollection_sync_trace_def Let_def os_replace_def
        written_def
      split: sum.splits if_splits option.splits dest!: last_open_wb_write)

lemmas small_defs =
  small_env_def small_dumps_def small_loads_def stat_metadata_def doc_path_def doc_kwargs_def
  other_writer_fs_def staged_buffer_def

lemma sync_small_in_place:
  "JSONCollection_sync small_env (from_base (JDict []) doc_kwargs) JNull other_writer_fs uid now =
     (other_writer_fs(doc_path \<mapsto> \<lparr>content = ''{}'', mtime = now, readable = True, writable = True\<rparr>), None)"
  by (simp add: JSONCollection_sync_def JSONCollection_sync_trace_def from_base_def to_base_def
      open_wb_write_def written_def small_defs last_map del: upt_Suc)

subsection \<open>Flushing a buffer entry\<close>

text \<open>
  Claim C1, as the code has it. For a pending buffer entry whose recorded metadata is
  not \<open>None\<close>, flushing re-probes the metadata of the resource. If the probe differs
  from the recorded metadata, \<open>_sync_from_buffer\<close> leaves the file system as it was
  (no write is performed) and returns \<open>False\<close>, raising nothing, and the entry is
  discarded from the buffer. If the probe
  equals the recorded metadata, the buffered snapshot is deserialised and written
  through the backend's \<open>_sync\<close>; the flush returns \<open>True\<close> unless the write itself
  raises.
\<close>

theorem flush_one_compares_metadata:
  assumes "pending buf ident = Some (kw, Some m)"
      and "get_filemetadata E fs ident = Inr probe"
  shows "(probe \<noteq> Some m \<longrightarrow>
            JSONCollection_sync_from_buffer E ident kw (wb_cache buf) (Some m) fs uid now =
              (fs, Inr False) \<and>
            flush_one E ident buf fs uid now = (discard ident buf, fs, Inr False)) \<and>
         (probe = Some m \<longrightarrow> wb_cache buf ident = Some s \<longrightarrow> json_loads E s = Some data \<longrightarrow>
            JSONCollection_sync_from_buffer E ident kw (wb_cache buf) (Some m) fs uid now =
              (case JSONCollection_sync E (from_base data kw) JNull fs uid now of
                 (fs', None) \<Rightarrow> (fs', Inr True)
               | (fs', Some e) \<Rightarrow> (fs', Inl e)) \<and>
            flush_one E ident buf fs uid now =
              (case JSONCollection_sync E (from_base data kw) JNull fs uid now of
                 (fs', None) \<Rightarrow> (discard ident buf, fs', Inr True)
               | (fs', Some e) \<Rightarrow> (discard ident buf, fs', Inl e)))"
  using assms
  by (auto simp: flush_one_def JSONCollection_sync_from_buffer_def split: prod.splits option.splits)

theorem flush_one_compares_metadata_witness:
  "flush_one small_env doc_path (staged_buffer (Some (2, 5))) other_writer_fs ''u'' 10 =
     (discard doc_path (staged_buffer (Some (2, 5))), other_writer_fs, Inr False) \<and>
   flush_one small_env doc_path (staged_buffer (Some (8, 9))) other_writer_fs ''u'' 10 =
     (discard doc_path (staged_buffer (Some (8, 9))),
      other_writer_fs(doc_path \<mapsto> \<lparr>content = ''{}'', mtime = 10, readable = True, writable = True\<rparr>),
      Inr True)"
proof -
  have p: "get_filemetadata small_env other_writer_fs doc_path = Inr (Some (8, 9))"
    by (simp add: small_defs)
  have c: "wb_cache (staged_buffer (Some (8, 9))) doc_path = Some ''{}''"
    by (simp add: small_defs)
  have l: "json_loads small_env ''{}'' = Some (JDict [])"
    by (simp add: small_defs)
  have a: "pending (staged_buffer (Some (2, 5))) doc_path = Some (doc_kwargs, Some (2, 5))"
    by (simp add: small_defs)
  have b: "pending (staged_buffer (Some (8, 9))) doc_path = Some (doc_kwargs, Some (8, 9))"
    by (simp add: small_defs)
  from flush_one_compares_metadata [OF a p, where uid = "''u''" and now = 10]
  have 1: "flush_one small_env doc_path (staged_buffer (Some (2, 5))) other_writer_fs ''u'' 10 =
     (discard doc_path (staged_buffer (Some (2, 5))), other_writer_fs, Inr False)"
    by simp
  from flush_one_compares_metadata
         [OF b p, where s = "''{}''" and data = "JDict []" and uid = "''u''" and now = 10] c l
  have 2: "flush_one small_env doc_path (staged_buffer (Some (8, 9))) other_writer_fs ''u'' 10 =
     (discard doc_path (staged_buffer (Some (8, 9))),
      other_writer_fs(doc_path \<mapsto> \<lparr>content = ''{}'', mtime = 10, readable = True, writable = True\<rparr>),
      Inr True)"
    by (simp add: sync_small_in_place)
  from 1 2 show ?thesis by simp
qed

text \<open>
  Without the restriction the claim fails: an entry staged with metadata \<open>None\<close> is
  written and reported as flushed although the probe at flush time, \<open>(8, 9)\<close>, differs
  from what was recorded; the content another writer stored in the meantime is lost.
\<close>

theorem sync_from_buffer_mismatch_counterexample:
  "get_filemetadata small_env other_writer_fs doc_path = Inr (Some (8, 9)) \<and>
   None \<noteq> Some (8 :: nat, 9 :: nat) \<and>
   JSONCollection_sync_from_buffer small_env doc_path doc_kwargs [doc_path \<mapsto> ''{}''] None
       other_writer_fs ''u'' 10 =
     (other_writer_fs(doc_path \<mapsto> \<lparr>content = ''{}'', mtime = 10, readable = True, writable = True\<rparr>),
      Inr True)"
proof -
  have l: "json_loads small_env ''{}'' = Some (JDict [])"
    by (simp add: small_defs)
  have "JSONCollection_sync_from_buffer small_env doc_path doc_kwargs [doc_path \<mapsto> ''{}''] None
       other_writer_fs ''u'' 10 =
     (other_writer_fs(doc_path \<mapsto> \<lparr>content = ''{}'', mtime = 10, readable = True, writable = True\<rparr>),
      Inr True)"
    by (simp add: JSONCollection_sync_from_buffer_def l sync_small_in_place)
  then show ?thesis by (simp add: small_defs)
qed

text \<open>
  Claim C10. When the metadata argument is \<open>None\<close> the comparison is skipped: whatever
  the probe would answer (it is not called, so it may even raise), the buffered snapshot
  is deserialised and written through the backend's \<open>_sync\<close>, and the flush returns
  \<open>True\<close> unless the write itself raises; after a write that raised nothing the
  resource holds the serialised snapshot.
\<close>

theorem sync_from_buffer_no_metadata:
  assumes "cache ident = Some s" and "json_loads E s = Some data"
  shows "JSONCollection_sync_from_buffer (E\<lparr>get_filemetadata := probe\<rparr>) ident kw cache None fs uid now =
           (case JSONCollection_sync E (from_base data kw) JNull fs uid now of
              (fs', None) \<Rightarrow> (fs', Inr True)
            | (fs', Some e) \<Rightarrow> (fs', Inl e)) \<and>
         (JSONCollection_sync E (from_base data kw) JNull fs uid now = (fs', None) \<longrightarrow>
          kw_filename kw = Some target \<longrightarrow>
            map_option content (fs' target) = Some (json_dumps E data))"
proof (intro conjI impI)
  show "JSONCollection_sync_from_buffer (E\<lparr>get_filemetadata := probe\<rparr>) ident kw cache None fs uid now =
           (case JSONCollection_sync E (from_base data kw) JNull fs uid now of
              (fs', None) \<Rightarrow> (fs', Inr True)
            | (fs', Some e) \<Rightarrow> (fs', Inl e))"
    using assms by (simp add: JSONCollection_sync_from_buffer_def sync_ignores_probe)
next
  assume w: "JSONCollection_sync E (from_base data kw) JNull fs uid now = (fs', None)"
    and t: "kw_filename kw = Some target"
  from t have "node_filename (from_base data kw) = Some target"
    by (simp add: from_base_def)
  from sync_success_content [OF w this] show
    "map_option content (fs' target) = Some (json_dumps E data)"
    by (simp add: to_base_def from_base_def)
qed

theorem sync_from_buffer_no_metadata_witness:
  "JSONCollection_sync_from_buffer (small_env\<lparr>get_filemetadata := (\<lambda>fs fn. Inl (IOError EACCES))\<rparr>)
       doc_path doc_kwargs [doc_path \<mapsto> ''{}''] None other_writer_fs ''u'' 10 =
     (other_writer_fs(doc_path \<mapsto> \<lparr>content = ''{}'', mtime = 10, readable = True, writable = True\<rparr>),
      Inr True)"
proof -
  have l: "json_loads small_env ''{}'' = Some (JDict [])"
    by (simp add: small_defs)
  have c: "[doc_path \<mapsto> ''{}''] doc_path = Some ''{}''"
    by simp
  show ?thesis
    using sync_from_buffer_no_metadata [where cache = "[doc_path \<mapsto> ''{}'']" and ident = doc_path
        and E = small_env and s = "''{}''" and data = "JDict []" and kw = doc_kwargs
        and fs = other_writer_fs and uid = "''u''" and now = 10
        and probe = "\<lambda>fs fn. Inl (IOError EACCES)", OF c l]
    by (simp add: sync_small_in_place)
qed

subsection \<open>Loading\<close>

text \<open>
  Claim C3 asks \<open>load\<close> to report an error when the resource cannot be opened for a
  reason other than absence. The code does not: for a file that exists but cannot be
  read, \<open>open\<close> raises \<open>IOError\<close> with \<open>EACCES\<close>, the handler of \<open>_load\<close> tests the
  errno against \<open>ENOENT\<close> and, the test failing, falls off its end, so that \<open>_load\<close>
  returns \<open>None\<close>, the signal of an absent resource.
\<close>

theorem load_unreadable_returns_absent:
  assumes "node_filename self = Some fn" and "fs fn = Some f" and "\<not> readable f"
  shows "JSONCollection_load E self fs = Inr JNull"
  using assms by (simp add: JSONCollection_load_def open_rb_read_def)

theorem load_unreadable_returns_absent_witness:
  "unreadable_fs doc_path \<noteq> None \<and>
   JSONCollection_load small_env (from_base JNull doc_kwargs) unreadable_fs = Inr JNull"
proof -
  have "JSONCollection_load small_env (from_base JNull doc_kwargs) unreadable_fs = Inr JNull"
    by (rule load_unreadable_returns_absent
          [where fn = doc_path
             and f = "\<lparr>content = ''{\"a\": 1}'', mtime = 9, readable = False, writable = True\<rparr>"])
       (simp_all add: from_base_def doc_kwargs_def unreadable_fs_def)
  then show ?thesis by (simp add: unreadable_fs_def)
qed
subsection \<open>Construction\<close>

text \<open>
  Claim C8. Construction fails with \<open>ValueError\<close>, leaving the state as it was, when
  the file name and the parent are both absent or both present; and whenever
  construction returns a node, exactly one of the two was given and exactly one of
  \<open>_filename\<close> and \<open>_parent\<close> is set in the node.
\<close>

theorem init_requires_exactly_one_binding:
  "((filename = None) = (parent = None) \<longrightarrow>
      JSONCollection_init E sync filename data wc parent st = (st, Inl ValueError)) \<and>
   (snd (JSONCollection_init E sync filename data wc parent st) = Inr self \<longrightarrow>
      (filename = None) \<noteq> (parent = None) \<and>
      (node_filename self = None) \<noteq> (node_parent self = None))"
  by (auto simp: JSONCollection_init_def SyncedCollection_init_def Let_def
      split: prod.splits option.splits if_splits)

theorem init_requires_exactly_one_binding_witness:
  "JSONCollection_init small_env (sync_unbuffered small_env ''u'' 3) None (JDict []) False None Map.empty
     = (Map.empty, Inl ValueError) \<and>
   JSONCollection_init small_env (sync_unbuffered small_env ''u'' 3) (Some doc_path) (JDict []) False
       (Some 0) Map.empty
     = (Map.empty, Inl ValueError) \<and>
   snd (JSONCollection_init small_env (sync_unbuffered small_env ''u'' 3) (Some doc_path) JNull False
       None Map.empty)
     = Inr \<lparr>node_filename = Some doc_path, node_parent = None, node_data = JNull,
            node_backend_kwargs = doc_kwargs\<rparr> \<and>
   (Some doc_path = None) \<noteq> ((None :: nat option) = None)"
proof -
  let ?sync = "sync_unbuffered small_env ''u'' 3"
  let ?n = "\<lparr>node_filename = Some doc_path, node_parent = None, node_data = JNull,
            node_backend_kwargs = doc_kwargs\<rparr>"
  have r: "snd (JSONCollection_init small_env ?sync (Some doc_path) JNull False None Map.empty) = Inr ?n"
    by (simp add: JSONCollection_init_def SyncedCollection_init_def small_env_def doc_kwargs_def)
  from init_requires_exactly_one_binding
         [where filename = None and parent = None and E = small_env and sync = ?sync
            and data = "JDict []" and wc = False and st = Map.empty]
  have 1: "JSONCollection_init small_env ?sync None (JDict []) False None Map.empty
     = (Map.empty, Inl ValueError)"
    by simp
  from init_requires_exactly_one_binding
         [where filename = "Some doc_path" and parent = "Some 0" and E = small_env and sync = ?sync
            and data = "JDict []" and wc = False and st = Map.empty]
  have 2: "JSONCollection_init small_env ?sync (Some doc_path) (JDict []) False (Some 0) Map.empty
     = (Map.empty, Inl ValueError)"
    by simp
  from init_requires_exactly_one_binding
         [where filename = "Some doc_path" and parent = None and E = small_env and sync = ?sync
            and data = JNull and wc = False and st = Map.empty and self = ?n] r
  have 3: "(Some doc_path = None) \<noteq> ((None :: nat option) = None)"
    by simp
  from 1 2 r 3 show ?thesis by blast
qed

text \<open>
  Claim C9. When the arguments pass the validation, a node constructed with data other
  than \<open>None\<close> calls \<open>sync\<close> on itself before the constructor returns: the state
  afterwards is the one \<open>sync\<close> produces, and an exception of \<open>sync\<close> is the
  constructor's. A node constructed without data leaves the state as it was, whatever
  \<open>sync\<close> would do.
\<close>

theorem init_syncs_iff_data:
  assumes "(filename = None) \<noteq> (parent = None)"
      and "self = \<lparr>node_filename = map_option (realpath E) filename, node_parent = parent,
                   node_data = data,
                   node_backend_kwargs = \<lparr>kw_filename = map_option (realpath E) filename,
                                          kw_write_concern = wc\<rparr>\<rparr>"
  shows "JSONCollection_init E sync filename data wc parent st =
           (if data \<noteq> JNull then
              (case sync self st of
                 (st', Some e) \<Rightarrow> (st', Inl e)
               | (st', None) \<Rightarrow> (st', Inr self))
            else (st, Inr self))"
  using assms
  by (auto simp: JSONCollection_init_def SyncedCollection_init_def Let_def map_option_case
      split: prod.splits option.splits)

theorem init_syncs_iff_data_witness:
  "JSONCollection_init small_env (sync_unbuffered small_env ''u'' 3) (Some doc_path) (JDict []) False
       None Map.empty
     = ([doc_path \<mapsto> \<lparr>content = ''{}'', mtime = 3, readable = True, writable = True\<rparr>],
        Inr \<lparr>node_filename = Some doc_path, node_parent = None, node_data = JDict [],
             node_backend_kwargs = doc_kwargs\<rparr>) \<and>
   JSONCollection_init small_env (sync_unbuffered small_env ''u'' 3) (Some doc_path) JNull False
       None Map.empty
     = (Map.empty,
        Inr \<lparr>node_filename = Some doc_path, node_parent = None, node_data = JNull,
             node_backend_kwargs = doc_kwargs\<rparr>)"
proof -
  let ?sync = "sync_unbuffered small_env ''u'' 3"
  let ?n = "\<lambda>d. \<lparr>node_filename = Some doc_path, node_parent = None, node_data = d,
            node_backend_kwargs = doc_kwargs\<rparr>"
  have h: "(Some doc_path = None) \<noteq> ((None :: nat option) = None)"
    by simp
  have n: "?n d = \<lparr>node_filename = map_option (realpath small_env) (Some doc_path),
                   node_parent = None, node_data = d,
                   node_backend_kwargs = \<lparr>kw_filename = map_option (realpath small_env) (Some doc_path),
                                          kw_write_concern = False\<rparr>\<rparr>" for d
    by (simp add: small_env_def doc_kwargs_def)
  have s: "?sync (?n (JDict [])) Map.empty =
             ([doc_path \<mapsto> \<lparr>content = ''{}'', mtime = 3, readable = True, writable = True\<rparr>], None)"
    by (simp add: sync_unbuffered_def JSONCollection_sync_def JSONCollection_sync_trace_def
        to_base_def open_wb_write_def written_def small_defs last_map del: upt_Suc)
  from init_syncs_iff_data [OF h n [of "JDict []"], where sync = ?sync and st = Map.empty] s
  have 1: "JSONCollection_init small_env ?sync (Some doc_path) (JDict []) False None Map.empty
     = ([doc_path \<mapsto> \<lparr>content = ''{}'', mtime = 3, readable = True, writable = True\<rparr>],
        Inr (?n (JDict [])))"
    by simp
  from init_syncs_iff_data [OF h n [of JNull], where sync = ?sync and st = Map.empty]
  have 2: "JSONCollection_init small_env ?sync (Some doc_path) JNull False None Map.empty
     = (Map.empty, Inr (?n JNull))"
    by simp
  from 1 2 show ?thesis by simp
qed

subsection \<open>Writing with and without write concern\<close>

lemma not_all_sep_iff: "xs \<noteq> replicate (length xs) sep \<longleftrightarrow> (\<exists>x\<in>set xs. x \<noteq> sep)"
proof
  assume "xs \<noteq> replicate (length xs) sep"
  then show "\<exists>x\<in>set xs. x \<noteq> sep"
    using replicate_length_same [of xs sep] by auto
next
  assume "\<exists>x\<in>set xs. x \<noteq> sep"
  then obtain x where "x \<in> set xs" "x \<noteq> sep" by blast
  then show "xs \<noteq> replicate (length xs) sep"
    by (metis in_set_replicate)
qed

lemma rstrip_sep_nonempty: "\<exists>x\<in>set xs. x \<noteq> sep \<Longrightarrow> rstrip_sep xs \<noteq> [] \<and> last (rstrip_sep xs) \<noteq> sep"
proof -
  assume a: "\<exists>x\<in>set xs. x \<noteq> sep"
  then have ne: "dropWhile (\<lambda>c. c = sep) (rev xs) \<noteq> []"
    by (simp add: dropWhile_eq_Nil_conv)
  from hd_dropWhile [OF ne] have "hd (dropWhile (\<lambda>c. c = sep) (rev xs)) \<noteq> sep" .
  with ne show ?thesis
    by (simp add: rstrip_sep_def last_rev)
qed

text \<open>The head and the tail that \<open>os.path.split\<close> cuts a path into.\<close>

lemma path_split_parts:
  assumes "path_split p = (h, t)"
  shows "sep \<notin> set t"
    and "\<exists>h0. p = h0 @ t \<and> (h0 = [] \<or> last h0 = sep)"
    and "h = [] \<or> h = replicate (length h) sep \<or> (h \<noteq> [] \<and> last h \<noteq> sep)"
proof -
  let ?h0 = "rev (dropWhile (\<lambda>c. c \<noteq> sep) (rev p))"
  from assms have t: "t = rev (takeWhile (\<lambda>c. c \<noteq> sep) (rev p))"
    and h: "h = (if ?h0 \<noteq> [] \<and> ?h0 \<noteq> replicate (length ?h0) sep then rstrip_sep ?h0 else ?h0)"
    by (simp_all add: path_split_def Let_def)
  show "sep \<notin> set t"
    unfolding t using set_takeWhileD [of sep "\<lambda>c. c \<noteq> sep" "rev p"] by auto
  have p: "p = ?h0 @ t"
    unfolding t by (simp only: rev_append [symmetric] takeWhile_dropWhile_id rev_rev_ident)
  have "?h0 = [] \<or> last ?h0 = sep"
  proof (cases "dropWhile (\<lambda>c. c \<noteq> sep) (rev p) = []")
    case True
    then show ?thesis by simp
  next
    case False
    from hd_dropWhile [OF False] show ?thesis
      using False by (simp add: last_rev)
  qed
  with p show "\<exists>h0. p = h0 @ t \<and> (h0 = [] \<or> last h0 = sep)" by blast
  show "h = [] \<or> h = replicate (length h) sep \<or> (h \<noteq> [] \<and> last h \<noteq> sep)"
  proof (cases "?h0 \<noteq> [] \<and> ?h0 \<noteq> replicate (length ?h0) sep")
    case True
    have "h = rstrip_sep ?h0" by (subst h, rule if_P, rule True)
    moreover from True have "\<exists>x\<in>set ?h0. x \<noteq> sep" by (simp only: not_all_sep_iff)
    ultimately show ?thesis using rstrip_sep_nonempty by blast
  next
    case False
    have eq: "h = ?h0" by (subst h, rule if_not_P, rule False)
    from False have "?h0 = [] \<or> ?h0 = replicate (length ?h0) sep" by blast
    then show ?thesis unfolding eq by blast
  qed
qed

text \<open>The temporary name is a fixed prefix followed by \<open>._<uid>_<filename>\<close>.\<close>

lemma fn_tmp_parts:
  assumes "path_split target = (h, t)"
  shows "\<exists>pre. (\<forall>uid. fn_tmp target uid = pre @ ''._'' @ uid @ ''_'' @ t) \<and>
           (pre = [] \<or> last pre = sep) \<and>
           (pre \<noteq> [] \<and> pre \<noteq> replicate (length pre) sep \<longrightarrow> rstrip_sep pre = h) \<and>
           (pre = [] \<or> pre = replicate (length pre) sep \<longrightarrow> pre = h)"
proof (cases "h = [] \<or> last h = sep")
  case True
  have c: "h = [] \<or> h = replicate (length h) sep"
    using path_split_parts(3) [OF assms] True by auto
  have "\<forall>uid. fn_tmp target uid = h @ ''._'' @ uid @ ''_'' @ t"
    using True by (simp add: fn_tmp_def assms path_join_def sep_def)
  with True c show ?thesis by (intro exI [of _ h]) auto
next
  case False
  have e: "\<forall>uid. fn_tmp target uid = (h @ [sep]) @ ''._'' @ uid @ ''_'' @ t"
    using False by (simp add: fn_tmp_def assms path_join_def sep_def)
  have n: "h @ [sep] \<noteq> replicate (length (h @ [sep])) sep"
    using False by (simp only: not_all_sep_iff) (metis UnCI last_in_set set_append)
  have r: "rstrip_sep (h @ [sep]) = h"
  proof -
    from False have "rev h \<noteq> []" "hd (rev h) \<noteq> sep" by (simp_all add: hd_rev)
    then have "dropWhile (\<lambda>c. c = sep) (rev h) = rev h" by (cases "rev h") auto
    then show ?thesis by (simp add: rstrip_sep_def)
  qed
  show ?thesis
    using e n r by (intro exI [of _ "h @ [sep]"]) simp
qed

lemma fn_tmp_neq_target: "fn_tmp target uid \<noteq> target"
proof
  assume eq: "fn_tmp target uid = target"
  obtain h t where s: "path_split target = (h, t)" by (cases "path_split target")
  from fn_tmp_parts [OF s] obtain pre where pre: "fn_tmp target uid = pre @ ''._'' @ uid @ ''_'' @ t"
    by blast
  from path_split_parts(2) [OF s] obtain h0 where h0: "target = h0 @ t" "h0 = [] \<or> last h0 = sep"
    by blast
  from eq pre h0(1) have "(pre @ ''._'' @ uid) @ ''_'' = h0" by simp
  then have "h0 \<noteq> [] \<and> last h0 = CHR ''_''" by auto
  with h0(2) show False by (simp add: sep_def)
qed

lemma fn_tmp_inj: "fn_tmp target uid = fn_tmp target uid' \<Longrightarrow> uid = uid'"
proof -
  assume eq: "fn_tmp target uid = fn_tmp target uid'"
  obtain h t where s: "path_split target = (h, t)" by (cases "path_split target")
  from fn_tmp_parts [OF s] obtain pre where "\<forall>u. fn_tmp target u = pre @ ''._'' @ u @ ''_'' @ t"
    by blast
  with eq show ?thesis by simp
qed

lemma fn_tmp_same_directory:
  assumes "sep \<notin> set uid"
  shows "path_split (fn_tmp target uid) =
           (fst (path_split target), ''._'' @ uid @ ''_'' @ snd (path_split target))"
proof -
  obtain h t where s: "path_split target = (h, t)" by (cases "path_split target")
  from fn_tmp_parts [OF s] obtain pre where
    e: "fn_tmp target uid = pre @ ''._'' @ uid @ ''_'' @ t" and
    l: "pre = [] \<or> last pre = sep" and
    a: "pre \<noteq> [] \<and> pre \<noteq> replicate (length pre) sep \<longrightarrow> rstrip_sep pre = h" and
    b: "pre = [] \<or> pre = replicate (length pre) sep \<longrightarrow> pre = h"
    by blast
  let ?name = "''._'' @ uid @ ''_'' @ t"
  have nosep: "\<forall>x\<in>set (rev ?name). x \<noteq> sep"
    using assms path_split_parts(1) [OF s] by (auto simp: sep_def)
  have tk0: "takeWhile (\<lambda>c. c \<noteq> sep) (rev pre) = []"
    using l by (cases "rev pre") (auto simp: last_rev)
  have dr0: "dropWhile (\<lambda>c. c \<noteq> sep) (rev pre) = rev pre"
    using l by (cases "rev pre") (auto simp: last_rev)
  have r: "rev (pre @ ?name) = rev ?name @ rev pre" by simp
  have "takeWhile (\<lambda>c. c \<noteq> sep) (rev ?name @ rev pre) =
          rev ?name @ takeWhile (\<lambda>c. c \<noteq> sep) (rev pre)"
    by (rule takeWhile_append2) (use nosep in blast)
  then have tk: "takeWhile (\<lambda>c. c \<noteq> sep) (rev (pre @ ?name)) = rev ?name"
    by (simp only: r tk0 append_Nil2)
  have "dropWhile (\<lambda>c. c \<noteq> sep) (rev ?name @ rev pre) = dropWhile (\<lambda>c. c \<noteq> sep) (rev pre)"
    by (rule dropWhile_append2) (use nosep in blast)
  then have dr: "dropWhile (\<lambda>c. c \<noteq> sep) (rev (pre @ ?name)) = rev pre"
    by (simp only: r dr0)
  have "path_split (pre @ ?name) = (h, ?name)"
    unfolding path_split_def Let_def tk dr using a b by auto
  with e s show ?thesis by simp
qed

lemma open_wb_write_new_or_writable:
  "open_wb_write fs fn blob now = Inr tr \<Longrightarrow>
     tr = map (\<lambda>k. fs(fn \<mapsto> written (fs fn) (take k blob) now)) [0..<Suc (length blob)]"
  by (simp add: open_wb_write_def split: if_splits)

lemma content_written: "content (written old s now) = s"
  by (simp add: written_def split: option.splits)

text \<open>The trace of a \<open>_sync\<close> with write concern: empty when the temporary file
  cannot be opened, and otherwise the growing temporary file followed by the rename.\<close>

lemma sync_trace_write_concern:
  assumes "node_filename self = Some target"
      and "kw_write_concern (node_backend_kwargs self)"
      and "JSONCollection_sync_trace E self data fs uid now = (tr, err)"
      and "blob = json_dumps E (if data = JNull then to_base self else data)"
      and "tmp = fn_tmp target uid"
  shows "(err \<noteq> None \<and> tr = []) \<or>
         (err = None \<and>
          tr = map (\<lambda>k. fs(tmp \<mapsto> written (fs tmp) (take k blob) now)) [0..<Suc (length blob)]
               @ [(fs(tmp := None))(target \<mapsto> written (fs tmp) blob now)])"
proof (cases "open_wb_write fs tmp blob now")
  case (Inl e)
  with assms show ?thesis
    by (auto simp: JSONCollection_sync_trace_def Let_def)
next
  case (Inr tr1)
  note l = last_open_wb_write [OF Inr]
  have r: "os_replace (last tr1) tmp target =
             Inr [(fs(tmp := None))(target \<mapsto> written (fs tmp) blob now)]"
    using l by (simp add: os_replace_def)
  from assms Inr r have "err = None \<and> tr = tr1 @ [(fs(tmp := None))(target \<mapsto> written (fs tmp) blob now)]"
    by (simp add: JSONCollection_sync_trace_def Let_def)
  with open_wb_write_new_or_writable [OF Inr] show ?thesis by simp
qed

text \<open>
  Claim C2. With write concern, \<open>_sync\<close> writes the serialised data to the temporary
  file \<open>._<uid>_<filename>\<close>, which is never the target, is a different file for each
  \<open>uid\<close> and lies in the directory of the target (a uuid contains no slash). A store
  that raises nothing goes through these states: the temporary file grows from empty to
  the complete data while the target is left as it was, and one \<open>os.replace\<close> then
  puts the complete file in the target's place. So in every state of the file system
  that can be observed the target is either as it was before the store or holds the
  complete data. Without write concern the target itself is truncated and filled in
  place.
\<close>

theorem sync_write_concern_atomic:
  assumes "node_filename self = Some target"
      and "JSONCollection_sync_trace E self data fs uid now = (tr, err)"
      and "blob = json_dumps E (if data = JNull then to_base self else data)"
      and "tmp = fn_tmp target uid"
  shows "(kw_write_concern (node_backend_kwargs self) \<longrightarrow>
            tmp \<noteq> target \<and>
            (\<forall>uid'. fn_tmp target uid' = tmp \<longrightarrow> uid' = uid) \<and>
            (sep \<notin> set uid \<longrightarrow> fst (path_split tmp) = fst (path_split target)) \<and>
            (err = None \<longrightarrow>
               tr = map (\<lambda>k. fs(tmp \<mapsto> written (fs tmp) (take k blob) now)) [0..<Suc (length blob)]
                    @ [(fs(tmp := None))(target \<mapsto> written (fs tmp) blob now)]) \<and>
            (\<forall>s\<in>set tr. s target = fs target \<or> map_option content (s target) = Some blob)) \<and>
         (\<not> kw_write_concern (node_backend_kwargs self) \<longrightarrow> err = None \<longrightarrow>
            tr = map (\<lambda>k. fs(target \<mapsto> written (fs target) (take k blob) now))
                   [0..<Suc (length blob)])"
proof (intro conjI impI)
  show "tmp \<noteq> target"
    using assms(4) fn_tmp_neq_target by simp
  show "\<forall>uid'. fn_tmp target uid' = tmp \<longrightarrow> uid' = uid"
    using assms(4) fn_tmp_inj by blast
  show "fst (path_split tmp) = fst (path_split target)" if "sep \<notin> set uid"
    using assms(4) fn_tmp_same_directory [OF that] by simp
next
  assume wc: "kw_write_concern (node_backend_kwargs self)"
  note t = sync_trace_write_concern [OF assms(1) wc assms(2) assms(3) assms(4)]
  show "tr = map (\<lambda>k. fs(tmp \<mapsto> written (fs tmp) (take k blob) now)) [0..<Suc (length blob)]
             @ [(fs(tmp := None))(target \<mapsto> written (fs tmp) blob now)]" if "err = None"
    using t that by blast
  have ne: "tmp \<noteq> target"
    using assms(4) fn_tmp_neq_target by simp
  show "\<forall>s\<in>set tr. s target = fs target \<or> map_option content (s target) = Some blob"
  proof
    fix s assume "s \<in> set tr"
    with t consider k where "s = fs(tmp \<mapsto> written (fs tmp) (take k blob) now)"
      | "s = (fs(tmp := None))(target \<mapsto> written (fs tmp) blob now)"
      by (auto simp del: upt_Suc)
    then show "s target = fs target \<or> map_option content (s target) = Some blob"
    proof cases
      case 1
      with ne show ?thesis by simp
    next
      case 2
      then show ?thesis by (simp add: content_written)
    qed
  qed
next
  assume "\<not> kw_write_concern (node_backend_kwargs self)" and "err = None"
  with assms(1-3) show
    "tr = map (\<lambda>k. fs(target \<mapsto> written (fs target) (take k blob) now)) [0..<Suc (length blob)]"
    by (auto simp: JSONCollection_sync_trace_def Let_def split: sum.splits
        dest: open_wb_write_new_or_writable)
qed

lemma fn_tmp_doc_path: "fn_tmp doc_path ''u1'' = ''/data/._u1_doc.json''"
  by (simp add: fn_tmp_def path_split_def path_join_def rstrip_sep_def sep_def doc_path_def)

lemma path_split_doc_path: "path_split doc_path = (''/data'', ''doc.json'')"
  by (simp add: path_split_def rstrip_sep_def sep_def doc_path_def)

theorem sync_write_concern_atomic_witness:
  "fn_tmp doc_path ''u1'' = ''/data/._u1_doc.json'' \<and>
   fst (path_split (fn_tmp doc_path ''u1'')) = ''/data'' \<and>
   fst (path_split doc_path) = ''/data'' \<and>
   snd (JSONCollection_sync_trace small_env wc_node JNull other_writer_fs ''u1'' 10) = None \<and>
   map (\<lambda>s. (map_option content (s doc_path), map_option content (s ''/data/._u1_doc.json'')))
     (fst (JSONCollection_sync_trace small_env wc_node JNull other_writer_fs ''u1'' 10)) =
     [(Some ''{\"a\": 1}'', Some []),
      (Some ''{\"a\": 1}'', Some ''{''),
      (Some ''{\"a\": 1}'', Some ''{}''),
      (Some ''{}'', None)]"
proof -
  let ?X = "JSONCollection_sync_trace small_env wc_node JNull other_writer_fs ''u1'' 10"
  have f: "node_filename wc_node = Some doc_path"
    by (simp add: wc_node_def from_base_def)
  have w: "kw_write_concern (node_backend_kwargs wc_node)"
    by (simp add: wc_node_def from_base_def)
  have b: "''{}'' = json_dumps small_env (if JNull = JNull then to_base wc_node else JNull)"
    by (simp add: wc_node_def from_base_def to_base_def small_env_def small_dumps_def)
  have x: "?X = (fst ?X, snd ?X)"
    by simp
  have e: "snd ?X = None"
  proof -
    have "other_writer_fs ''/data/._u1_doc.json'' = None"
      by (simp add: other_writer_fs_def doc_path_def)
    then show ?thesis
      by (simp add: JSONCollection_sync_trace_def Let_def f w fn_tmp_doc_path
            open_wb_write_def os_replace_def last_map del: upt_Suc)
  qed
  have u: "sep \<notin> set ''u1''"
    by (simp add: sep_def)
  from sync_write_concern_atomic [OF f x b fn_tmp_doc_path [symmetric]] w e u
  have t: "fst ?X =
      map (\<lambda>k. other_writer_fs(''/data/._u1_doc.json'' \<mapsto>
                  written (other_writer_fs ''/data/._u1_doc.json'') (take k ''{}'') 10)) [0..<Suc (length ''{}'')]
      @ [(other_writer_fs(''/data/._u1_doc.json'' := None))(doc_path \<mapsto>
            written (other_writer_fs ''/data/._u1_doc.json'') ''{}'' 10)]"
    and d: "fst (path_split ''/data/._u1_doc.json'') = fst (path_split doc_path)"
    by simp_all
  have c: "map (\<lambda>s. (map_option content (s doc_path), map_option content (s ''/data/._u1_doc.json'')))
     (fst ?X) =
     [(Some ''{\"a\": 1}'', Some []),
      (Some ''{\"a\": 1}'', Some ''{''),
      (Some ''{\"a\": 1}'', Some ''{}''),
      (Some ''{}'', None)]"
    unfolding t by (simp add: other_writer_fs_def doc_path_def written_def upt_rec)
  from d c e show ?thesis
    by (simp add: fn_tmp_doc_path path_split_doc_path)
qed

section \<open>Properties of nested nodes and of the document store\<close>

subsection \<open>Identity of nested nodes\<close>

lemma read_path_keeps_children:
  "children r q = Some a \<Longrightarrow> children (fst (read_path r p)) q = Some a"
  by (auto simp: read_path_def split: sum.splits option.splits)

lemma run_keeps_children:
  "children r q = Some a \<Longrightarrow> children (run r ops) q = Some a"
proof (induction ops arbitrary: r)
  case Nil
  then show ?case by simp
next
  case (Cons x ops)
  show ?case
  proof (cases x)
    case (Read p)
    with Cons show ?thesis by (simp add: read_path_keeps_children)
  next
    case (Mutate v)
    with Cons show ?thesis by (simp add: mutate_def)
  qed
qed

lemma read_path_node_cached:
  "read_path r p = (r1, Inr (Node a)) \<Longrightarrow> children r1 p = Some a"
  by (auto simp: read_path_def split: sum.splits option.splits if_splits)

lemma read_path_cached:
  "children r p = Some a \<Longrightarrow> read_path r p = (r', Inr (Node b)) \<Longrightarrow> b = a \<and> r' = r"
  by (auto simp: read_path_def split: sum.splits option.splits if_splits)

text \<open>
  Claim C5. On every root, a mapping or a sequence, and for every nested path of keys
  and indexes: when a read of the path has returned a node, a later read of the same
  path on that root returns the identical instance (the same address, not merely an
  equal value), whatever reads of other paths and mutations happen in between, as long
  as the root is not reloaded; the second read changes nothing in the root. A reload of
  the root leaves the cache of nested nodes empty.
\<close>

theorem nested_read_identity:
  assumes "read_path r p = (r1, Inr (Node a))"
      and "read_path (run r1 ops) p = (r2, Inr (Node b))"
  shows "b = a \<and> r2 = run r1 ops \<and> children (reload r2 v) = Map.empty"
proof -
  from assms(1) have "children r1 p = Some a" by (rule read_path_node_cached)
  then have "children (run r1 ops) p = Some a" by (rule run_keeps_children)
  from read_path_cached [OF this assms(2)] show ?thesis by (simp add: reload_def)
qed

theorem nested_read_identity_witness:
  "read_path jsd [AtKey ''a'', AtIndex 0] = (jsd_read, Inr (Node 1)) \<and>
   read_path (run jsd_read jsd_accesses) [AtKey ''a'', AtIndex 0] =
     (run jsd_read jsd_accesses, Inr (Node 1)) \<and>
   children (run jsd_read jsd_accesses) [AtKey ''a''] = Some 2 \<and>
   children (reload (run jsd_read jsd_accesses) JNull) = Map.empty \<and>
   read_path jsl [AtIndex (- 1)] = (jsl_read, Inr (Node 1)) \<and>
   read_path jsl_read [AtIndex (- 1)] = (jsl_read, Inr (Node 1))"
proof -
  let ?r2 = "\<lparr>snapshot = JDict [(''a'', JList [JDict [(''k'', JStr ''d'')]])],
             children = [[AtKey ''a'', AtIndex 0] \<mapsto> 1, [AtKey ''a''] \<mapsto> 2],
             next_address = 3\<rparr>"
  have 1: "read_path jsd [AtKey ''a'', AtIndex 0] = (jsd_read, Inr (Node 1))"
    by (simp add: read_path_def jsd_def jsd_read_def)
  have 2: "read_path (run jsd_read jsd_accesses) [AtKey ''a'', AtIndex 0] = (?r2, Inr (Node 1))"
    by (simp add: read_path_def jsd_def jsd_read_def jsd_accesses_def mutate_def)
  from nested_read_identity [OF 1 2, of JNull]
  have 3: "?r2 = run jsd_read jsd_accesses \<and> children (reload ?r2 JNull) = Map.empty"
    by (rule conjunct2)
  from 3 have "?r2 = run jsd_read jsd_accesses"
    by (rule conjunct1)
  then have 4: "run jsd_read jsd_accesses = ?r2"
    by (rule sym)
  from 3 have 5: "children (reload ?r2 JNull) = Map.empty"
    by (rule conjunct2)
  have 6: "children ?r2 [AtKey ''a''] = Some 2"
    by simp
  have 7: "read_path jsl [AtIndex (- 1)] = (jsl_read, Inr (Node 1))"
    by (simp add: read_path_def jsl_def jsl_read_def)
  have "snd (read_path jsl_read [AtIndex (- 1)]) = Inr (Node 1)"
    by (simp add: read_path_def jsl_def jsl_read_def)
  then have 8: "read_path (run jsl_read []) [AtIndex (- 1)] =
                  (fst (read_path jsl_read [AtIndex (- 1)]), Inr (Node 1))"
    by (simp add: prod_eq_iff)
  from nested_read_identity [OF 7 8, of JNull]
  have "fst (read_path jsl_read [AtIndex (- 1)]) = run jsl_read []"
    by blast
  with 8 have 9: "read_path jsl_read [AtIndex (- 1)] = (jsl_read, Inr (Node 1))"
    by simp
  show ?thesis
    unfolding 4 by (intro conjI) (rule 1, rule 2 [unfolded 4], rule 6, rule 5, rule 7, rule 9)
qed

subsection \<open>Secondary indexes\<close>

lemma ids_at_group_id:
  "ids_at (group_id field (i, d) ix) v =
     ids_at ix v \<union> (if resolve field (JDict d) = Some v then {i} else {})"
  by (auto simp: group_id_def ids_at_def split: option.splits)

lemma ids_at_fold_group_id:
  "ids_at (fold (group_id field) ds ix) v =
     ids_at ix v \<union> {i. \<exists>d. (i, d) \<in> set ds \<and> resolve field (JDict d) = Some v}"
proof (induction ds arbitrary: ix)
  case Nil
  then show ?case by simp
next
  case (Cons x ds)
  obtain i d where x: "x = (i, d)" by (cases x)
  show ?case
    unfolding x by (simp add: Cons.IH ids_at_group_id) blast
qed

lemma ids_at_build_index:
  "ids_at (build_index ds field) v = {i. \<exists>d. (i, d) \<in> set ds \<and> resolve field (JDict d) = Some v}"
proof -
  have "ids_at Map.empty v = {}" by (simp add: ids_at_def)
  then show ?thesis by (simp add: build_index_def ids_at_fold_group_id)
qed

lemma indexes_valid_cleared: "indexes c = Map.empty \<Longrightarrow> indexes_valid c"
  by (simp add: indexes_valid_def)

lemma insert_one_valid: "indexes_valid c \<Longrightarrow> indexes_valid (fst (insert_one c d))"
  by (auto simp: insert_one_def put_def indexes_valid_def split: option.splits json.splits)

lemma delete_one_valid: "indexes_valid c \<Longrightarrow> indexes_valid (delete_one c flt)"
  by (auto simp: delete_one_def remove_def indexes_valid_def split: option.splits)

lemma replace_one_valid: "indexes_valid c \<Longrightarrow> indexes_valid (fst (replace_one c flt d))"
  by (auto simp: replace_one_def put_def remove_def indexes_valid_def
      split: option.splits json.splits)

lemma index_field_valid: "indexes_valid c \<Longrightarrow> indexes_valid (fst (index_field c field build))"
  by (auto simp: index_field_def indexes_valid_def split: option.splits)

lemma flush_valid: "indexes_valid c \<Longrightarrow> indexes_valid (fst (flush c))"
  by (auto simp: flush_def indexes_valid_def)

lemma close_valid: "indexes_valid c \<Longrightarrow> indexes_valid (fst (close c))"
  by (auto simp: close_def flush_def indexes_valid_def split: prod.splits sum.splits if_splits)

lemma apply_op_valid: "indexes_valid c \<Longrightarrow> indexes_valid (apply_op x c)"
  by (cases x)
     (simp_all add: insert_one_valid delete_one_valid replace_one_valid index_field_valid
        flush_valid close_valid)

lemma fold_apply_op_valid: "indexes_valid c \<Longrightarrow> indexes_valid (fold apply_op ops c)"
  by (induction ops arbitrary: c) (simp_all add: apply_op_valid)

lemma initial_valid: "indexes_valid (initial s)"
proof (cases s)
  case New
  then show ?thesis by (simp add: indexes_valid_def empty_collection_def)
next
  case (Open recs m)
  then show ?thesis by (cases m) (simp_all add: indexes_valid_def open_collection_def)
qed

lemma perform_indexes_valid: "indexes_valid (perform s ops)"
  unfolding perform_def by (rule fold_apply_op_valid) (rule initial_valid)

text \<open>
  Claim C4. On every store that the operations can reach, \<open>index(field, build=True)\<close>
  returns an index, and the index maps every value \<open>v\<close> to exactly the set of ids of
  the documents whose value at \<open>field\<close>, resolved as a dotted path as \<open>find\<close> does,
  equals \<open>v\<close>. After an insertion, a deletion or a replacement that took place, a
  request of the index without \<open>build\<close> fails with \<open>MissingKey\<close>.
\<close>

theorem index_correct:
  assumes "c = perform s ops"
  shows "(index_field c field True = (c', Inr ix) \<longrightarrow>
            (\<forall>v. ids_at ix v = {i. \<exists>d. (i, d) \<in> set (docs c) \<and> resolve field (JDict d) = Some v})) \<and>
         (\<exists>c' ix. index_field c field True = (c', Inr ix)) \<and>
         (insert_one c d = (c1, Inr i) \<longrightarrow> index_field c1 field False = (c1, Inl MissingKey)) \<and>
         (first_match c flt \<noteq> None \<longrightarrow>
            index_field (delete_one c flt) field False = (delete_one c flt, Inl MissingKey)) \<and>
         (replace_one c flt d = (c2, Inr (Some j)) \<longrightarrow>
            index_field c2 field False = (c2, Inl MissingKey))"
proof (intro conjI impI)
  assume a: "index_field c field True = (c', Inr ix)"
  from assms have "indexes_valid c" by (simp add: perform_indexes_valid)
  with a have "ix = build_index (docs c) field"
    by (auto simp: index_field_def indexes_valid_def split: option.splits)
  then show "\<forall>v. ids_at ix v = {i. \<exists>d. (i, d) \<in> set (docs c) \<and> resolve field (JDict d) = Some v}"
    by (simp add: ids_at_build_index)
next
  show "\<exists>c' ix. index_field c field True = (c', Inr ix)"
    by (simp add: index_field_def split: option.splits)
next
  assume "insert_one c d = (c1, Inr i)"
  then have "indexes c1 = Map.empty"
    by (auto simp: insert_one_def put_def split: option.splits json.splits if_splits)
  then show "index_field c1 field False = (c1, Inl MissingKey)"
    by (simp add: index_field_def)
next
  assume "first_match c flt \<noteq> None"
  then have "indexes (delete_one c flt) = Map.empty"
    by (auto simp: delete_one_def remove_def)
  then show "index_field (delete_one c flt) field False = (delete_one c flt, Inl MissingKey)"
    by (simp add: index_field_def)
next
  assume "replace_one c flt d = (c2, Inr (Some j))"
  then have "indexes c2 = Map.empty"
    by (auto simp: replace_one_def put_def remove_def split: option.splits json.splits if_splits)
  then show "index_field c2 field False = (c2, Inl MissingKey)"
    by (simp add: index_field_def)
qed

lemma docs_two_docs:
  "two_docs =
     \<lparr>docs = [(''0'', [(''a'', JNum 0), (''_id'', JStr ''0'')]),
              (''00'', [(''a'', JNum 1), (''_id'', JStr ''00'')])],
      indexes = Map.empty, handle = None, persisted = [], dirty = True\<rparr>"
  by (simp add: two_docs_def perform_def insert_one_def put_def fresh_id_def ids_def
      empty_collection_def)

lemma three_docs_insert: "insert_one two_docs [(''a'', JNum 0)] = (three_docs, Inr ''000'')"
proof -
  have "three_docs = fst (insert_one two_docs [(''a'', JNum 0)])"
    by (simp add: three_docs_def two_docs_def perform_def)
  moreover have "snd (insert_one two_docs [(''a'', JNum 0)]) = Inr ''000''"
    by (simp add: docs_two_docs insert_one_def fresh_id_def ids_def)
  ultimately show ?thesis by (simp add: prod_eq_iff)
qed

lemma docs_three_docs:
  "three_docs =
     \<lparr>docs = [(''0'', [(''a'', JNum 0), (''_id'', JStr ''0'')]),
              (''00'', [(''a'', JNum 1), (''_id'', JStr ''00'')]),
              (''000'', [(''a'', JNum 0), (''_id'', JStr ''000'')])],
      indexes = Map.empty, handle = None, persisted = [], dirty = True\<rparr>"
proof -
  have "three_docs = fst (insert_one two_docs [(''a'', JNum 0)])"
    by (simp add: three_docs_insert)
  then show ?thesis
    by (simp add: docs_two_docs insert_one_def put_def fresh_id_def ids_def)
qed

lemma three_docs_indexed_eq: "three_docs_indexed = fst (index_field three_docs ''a'' True)"
  by (simp add: three_docs_indexed_def three_docs_def perform_def)

theorem index_correct_witness:
  "index_field three_docs ''a'' False = (three_docs, Inl MissingKey) \<and>
   ids_at (build_index (docs three_docs) ''a'') (JNum 0) = {''0'', ''000''} \<and>
   ids_at (build_index (docs three_docs) ''a'') (JNum 1) = {''00''} \<and>
   ids_at (build_index (docs three_docs) ''a'') (JNum 2) = {} \<and>
   index_field (delete_one three_docs_indexed [(''a'', JNum 1)]) ''a'' False =
     (delete_one three_docs_indexed [(''a'', JNum 1)], Inl MissingKey)"
proof -
  let ?ix = "build_index (docs three_docs) ''a''"
  let ?c' = "three_docs\<lparr>indexes := (indexes three_docs)(''a'' \<mapsto> ?ix)\<rparr>"
  from index_correct [OF two_docs_def, where field = "''a''" and d = "[(''a'', JNum 0)]"
      and ?c1.0 = three_docs and i = "''000''"] three_docs_insert
  have 1: "index_field three_docs ''a'' False = (three_docs, Inl MissingKey)"
    by blast
  have b: "index_field three_docs ''a'' True = (?c', Inr ?ix)"
    by (simp add: index_field_def docs_three_docs)
  from index_correct [OF three_docs_def, where field = "''a''" and c' = ?c' and ix = ?ix] b
  have s: "ids_at ?ix v = {i. \<exists>d. (i, d) \<in> set (docs three_docs) \<and> resolve ''a'' (JDict d) = Some v}"
    for v by blast
  have 2: "ids_at ?ix (JNum 0) = {''0'', ''000''}"
    unfolding s by (auto simp: docs_three_docs resolve_def)
  have 3: "ids_at ?ix (JNum 1) = {''00''}"
    unfolding s by (auto simp: docs_three_docs resolve_def)
  have 4: "ids_at ?ix (JNum 2) = {}"
    unfolding s by (auto simp: docs_three_docs resolve_def)
  have m: "first_match three_docs_indexed [(''a'', JNum 1)] \<noteq> None"
    by (simp add: three_docs_indexed_eq b) (simp add: first_match_def docs_three_docs resolve_def)
  from index_correct [OF three_docs_indexed_def, where field = "''a''" and flt = "[(''a'', JNum 1)]"] m
  have 5: "index_field (delete_one three_docs_indexed [(''a'', JNum 1)]) ''a'' False =
     (delete_one three_docs_indexed [(''a'', JNum 1)], Inl MissingKey)"
    by blast
  from 1 2 3 4 5 show ?thesis by blast
qed

subsection \<open>Dotted and nested filters\<close>

lemma split_dots_no_dot: "CHR ''.'' \<notin> set b \<Longrightarrow> split_dots b = [b]"
  by (induction b) auto

lemma split_dots_append:
  "CHR ''.'' \<notin> set a \<Longrightarrow> split_dots (a @ CHR ''.'' # rest) = a # split_dots rest"
  by (induction a) auto

lemma lookup_path_Cons:
  "lookup_path (k # ks) x = (case lookup_path [k] x of None \<Rightarrow> None | Some y \<Rightarrow> lookup_path ks y)"
  by (cases x) (auto split: option.splits)

lemma resolve_dotted:
  assumes "CHR ''.'' \<notin> set a" and "CHR ''.'' \<notin> set b"
  shows "resolve (a @ CHR ''.'' # b) x = (case resolve a x of None \<Rightarrow> None | Some y \<Rightarrow> resolve b y)"
proof -
  have "resolve (a @ CHR ''.'' # b) x = lookup_path [a, b] x"
    using assms by (simp add: resolve_def split_dots_append split_dots_no_dot)
  also have "\<dots> = (case lookup_path [a] x of None \<Rightarrow> None | Some y \<Rightarrow> lookup_path [b] y)"
    by (rule lookup_path_Cons)
  also have "\<dots> = (case resolve a x of None \<Rightarrow> None | Some y \<Rightarrow> resolve b y)"
    using assms by (simp add: resolve_def split_dots_no_dot split: option.splits)
  finally show ?thesis .
qed

lemma matches_append: "matches x (f1 @ f2) = (matches x f1 \<and> matches x f2)"
  by (induction f1) auto

lemma matches_dotted:
  assumes "CHR ''.'' \<notin> set a" and "CHR ''.'' \<notin> set b"
  shows "matches x [(a @ ''.'' @ b, v)] = matches x [(a, JDict [(b, v)])]"
  by (cases "resolve a x") (simp_all add: resolve_dotted [OF assms])

lemma matches_dotted_among:
  assumes "CHR ''.'' \<notin> set a" and "CHR ''.'' \<notin> set b"
  shows "matches x (pre @ (a @ ''.'' @ b, v) # post) = matches x (pre @ (a, JDict [(b, v)]) # post)"
proof -
  have "matches x (pre @ [(a @ ''.'' @ b, v)] @ post) = matches x (pre @ [(a, JDict [(b, v)])] @ post)"
    by (simp only: matches_append matches_dotted [OF assms])
  then show ?thesis by simp
qed

text \<open>
  Claim C6. On every store, for every value \<open>v\<close> and all keys \<open>a\<close> and \<open>b\<close> (field
  names, which contain no dot), the query with the dotted-path key \<open>"a.b": v\<close> and
  the query with the nested-mapping key \<open>"a": {"b": v}\<close> return the same result,
  whatever other entries the filter has and whatever the limit.
\<close>

theorem find_dotted_eq_nested:
  assumes "CHR ''.'' \<notin> set a" and "CHR ''.'' \<notin> set b"
  shows "find_docs c (pre @ (a @ ''.'' @ b, v) # post) limit =
           find_docs c (pre @ (a, JDict [(b, v)]) # post) limit"
  unfolding find_docs_def by (simp only: matches_dotted_among [OF assms])

theorem find_dotted_eq_nested_witness:
  "find_docs nested_docs [(''a.b'', JNum 0)] None =
     Inr [[(''a'', JDict [(''b'', JNum 0)]), (''_id'', JStr ''0'')]] \<and>
   find_docs nested_docs [(''a'', JDict [(''b'', JNum 0)])] None =
     Inr [[(''a'', JDict [(''b'', JNum 0)]), (''_id'', JStr ''0'')]]"
proof -
  have a: "CHR ''.'' \<notin> set ''a''" and b: "CHR ''.'' \<notin> set ''b''"
    by simp_all
  have n: "find_docs nested_docs [(''a'', JDict [(''b'', JNum 0)])] None =
     Inr [[(''a'', JDict [(''b'', JNum 0)]), (''_id'', JStr ''0'')]]"
    by (simp add: find_docs_def nested_docs_def perform_def insert_one_def put_def fresh_id_def
        ids_def empty_collection_def resolve_def)
  from find_dotted_eq_nested [OF a b, where c = nested_docs and pre = "[]" and post = "[]"
      and v = "JNum 0" and limit = None] n
  show ?thesis
    by simp
qed

subsection \<open>A handle opened in read mode\<close>

lemma fold_max_ge: "n \<le> fold max ns (m :: nat) \<longleftrightarrow> n \<le> m \<or> (\<exists>k\<in>set ns. n \<le> k)"
  by (induction ns arbitrary: m) auto

lemma fresh_id_fresh: "fresh_id xs \<notin> set xs"
proof
  assume "fresh_id xs \<in> set xs"
  then have "length (fresh_id xs) \<in> set (map length xs)" by simp
  then have "length (fresh_id xs) \<le> fold max (map length xs) 0"
    by (subst fold_max_ge) blast
  then show False by (simp add: fresh_id_def)
qed

lemma ids_put: "i \<in> set (ids (put c i d))"
  by (simp add: ids_def put_def update_keys)

text \<open>
  Claim C7. On a handle opened in read mode, inserting a document without an id
  succeeds and assigns an id that was not present; and after an insertion that
  succeeded the document is in the record set in memory, the persisted record set is
  as it was, every query (\<open>find\<close>, \<open>find_one\<close>) fails with \<open>NotReady\<close>, and \<open>flush\<close>
  and \<open>close\<close> fail with \<open>DisallowedOperation\<close> and change nothing.
\<close>

theorem read_mode_mutation:
  assumes "handle c = Some ReadMode"
  shows "(map_of d ''_id'' = None \<longrightarrow>
            snd (insert_one c d) = Inr (fresh_id (ids c)) \<and> fresh_id (ids c) \<notin> set (ids c)) \<and>
         (insert_one c d = (c1, Inr i) \<longrightarrow>
            i \<in> set (ids c1) \<and> persisted c1 = persisted c \<and> handle c1 = Some ReadMode \<and>
            find_docs c1 flt limit = Inl NotReady \<and>
            find_one c1 flt = Inl NotReady \<and>
            flush c1 = (c1, Inl DisallowedOperation) \<and>
            close c1 = (c1, Inl DisallowedOperation))"
proof (intro conjI impI)
  show "snd (insert_one c d) = Inr (fresh_id (ids c))" if "map_of d ''_id'' = None"
    using that by (simp add: insert_one_def)
  show "fresh_id (ids c) \<notin> set (ids c)"
    by (rule fresh_id_fresh)
next
  assume "insert_one c d = (c1, Inr i)"
  then have p: "c1 = put c i d"
    by (auto simp: insert_one_def split: option.splits json.splits if_splits)
  show "i \<in> set (ids c1)"
    unfolding p by (rule ids_put)
  show "persisted c1 = persisted c"
    unfolding p by (simp add: put_def)
  show h: "handle c1 = Some ReadMode"
    unfolding p using assms by (simp add: put_def)
  have d: "dirty c1"
    unfolding p by (simp add: put_def)
  show f: "find_docs c1 flt limit = Inl NotReady" for limit
    using h d by (simp add: find_docs_def)
  show "find_one c1 flt = Inl NotReady"
    by (simp add: find_one_def f)
  show fl: "flush c1 = (c1, Inl DisallowedOperation)"
    using h d by (simp add: flush_def)
  show "close c1 = (c1, Inl DisallowedOperation)"
    by (simp add: close_def fl)
qed

theorem read_mode_mutation_witness:
  "handle read_only = Some ReadMode \<and>
   find_docs read_only [] None = Inr three_records \<and>
   close read_only = (read_only\<lparr>handle := None\<rparr>, Inr ()) \<and>
   snd (insert_one read_only []) = Inr ''00'' \<and>
   map fst (docs (fst (insert_one read_only []))) = [''0'', ''1'', ''2'', ''00''] \<and>
   persisted (fst (insert_one read_only [])) = three_records \<and>
   find_docs (fst (insert_one read_only [])) [] None = Inl NotReady \<and>
   flush (fst (insert_one read_only [])) = (fst (insert_one read_only []), Inl DisallowedOperation) \<and>
   close (fst (insert_one read_only [])) = (fst (insert_one read_only []), Inl DisallowedOperation)"
proof -
  have r: "read_only =
     \<lparr>docs = [(''0'', [(''_id'', JStr ''0'')]), (''1'', [(''_id'', JStr ''1'')]),
              (''2'', [(''_id'', JStr ''2'')])],
      indexes = Map.empty, handle = Some ReadMode, persisted = three_records, dirty = False\<rparr>"
    by (simp add: read_only_def open_collection_def load_records_def three_records_def)
  have h: "handle read_only = Some ReadMode"
    by (simp add: r)
  have n: "map_of ([] :: doc) ''_id'' = None"
    by simp
  have f: "fresh_id (ids read_only) = ''00''"
    by (simp add: r fresh_id_def ids_def)
  have q: "find_docs read_only [] None = Inr three_records"
    by (simp add: r find_docs_def) (simp add: three_records_def)
  have c: "close read_only = (read_only\<lparr>handle := None\<rparr>, Inr ())"
    by (simp add: r close_def flush_def)
  have k: "map fst (docs (fst (insert_one read_only []))) = [''0'', ''1'', ''2'', ''00'']"
    by (simp add: insert_one_def f put_def) (simp add: r)
  note t = read_mode_mutation [OF h, where d = "[]" and ?c1.0 = "fst (insert_one read_only [])"
      and i = "''00''" and flt = "[]" and limit = None]
  from t n f have s: "snd (insert_one read_only []) = Inr ''00''"
    by simp
  then have "insert_one read_only [] = (fst (insert_one read_only []), Inr ''00'')"
    by (metis prod.collapse)
  with t have
    "persisted (fst (insert_one read_only [])) = persisted read_only \<and>
     find_docs (fst (insert_one read_only [])) [] None = Inl NotReady \<and>
     flush (fst (insert_one read_only [])) = (fst (insert_one read_only []), Inl DisallowedOperation) \<and>
     close (fst (insert_one read_only [])) = (fst (insert_one read_only []), Inl DisallowedOperation)"
    by blast
  moreover have "persisted read_only = three_records"
    by (simp add: r)
  ultimately show ?thesis
    using h q c s k by simp
qed

end
